theory Spec2Isabelle
  imports Main "HOL-Library.Word" "HOL-Library.Char_ord" "HOL-Library.List_Lexorder" "HOL-Library.Sublist"
begin

section \<open>Errors\<close>

text \<open>
  The package declares four constant errors of its own string type \<open>Error\<close>. The other
  errors that reach its callers come from the libraries it uses: \<open>strconv.Atoi\<close> fails with
  a \<open>*strconv.NumError\<close> (function name, offending text, and \<open>ErrSyntax\<close> or \<open>ErrRange\<close>),
  the git collaborator fails with errors of its own (kept here by their message), and
  \<open>errors.Wrap err msg\<close> puts a message in front of a cause. An index beyond the end of a
  slice panics; the panic is a value here, so that the branch is visible.
\<close>

datatype numErr = ErrSyntax | ErrRange

datatype error =
    ErrVersionFormat
  | ErrNoTagsFound
  | ErrNoVersionTagsFound
  | ErrCannotIncrementMajAndMin
  | NumError string string numErr
  | GitError string
  | Wrap error string
  | Panic string





section \<open>The Version value\<close>

text \<open>
  \<open>majorRelease\<close>, \<open>minorRelease\<close> and \<open>bugFixRelease\<close> are Go \<open>int\<close>s: 64-bit two's
  complement on the platforms the tool is built for. \<open>+\<close> on \<open>64 word\<close> wraps as Go's
  \<open>++\<close> does; \<open>sint\<close> reads the signed value.
\<close>

type_synonym goInt = "64 word"

record Version =
  majorRelease :: goInt
  minorRelease :: goInt
  bugFixRelease :: goInt

text \<open>\<open>Version{}\<close>, the zero value.\<close>

definition zeroVersion :: Version where
  "zeroVersion = \<lparr>majorRelease = 0, minorRelease = 0, bugFixRelease = 0\<rparr>"

definition incrementMajor :: "Version \<Rightarrow> Version" where
  "incrementMajor v = v\<lparr>majorRelease := majorRelease v + 1, minorRelease := 0, bugFixRelease := 0\<rparr>"

definition incrementMinor :: "Version \<Rightarrow> Version" where
  "incrementMinor v = v\<lparr>minorRelease := minorRelease v + 1, bugFixRelease := 0\<rparr>"

definition incrementBugFix :: "Version \<Rightarrow> Version" where
  "incrementBugFix v = v\<lparr>bugFixRelease := bugFixRelease v + 1\<rparr>"

text \<open>
  \<open>incrementVersion\<close> returns a Version and an error, as the Go function does: with both
  flags set the Version returned is the argument itself.
\<close>

definition incrementVersion :: "Version \<Rightarrow> bool \<Rightarrow> bool \<Rightarrow> Version \<times> error option" where
  "incrementVersion latestVersion major minor =
     (let incrementedVersion = latestVersion in
      if major \<and> minor then (latestVersion, Some ErrCannotIncrementMajAndMin)
      else if major then (incrementMajor incrementedVersion, None)
      else if minor then (incrementMinor incrementedVersion, None)
      else (incrementBugFix incrementedVersion, None))"

section \<open>Decimal text: fmt.Sprintf with %d, strconv.Atoi\<close>

definition isDigit :: "char \<Rightarrow> bool" where
  "isDigit c = (CHR ''0'' \<le> c \<and> c \<le> CHR ''9'')"

definition digitChar :: "nat \<Rightarrow> char" where
  "digitChar d = char_of (of_char (CHR ''0'') + d)"

definition digitVal :: "char \<Rightarrow> nat" where
  "digitVal c = of_char c - of_char (CHR ''0'')"

text \<open>The decimal digits of a natural number, most significant first, no leading zero.\<close>

fun decimal :: "nat \<Rightarrow> string" where
  "decimal n = (if n < 10 then [digitChar n] else decimal (n div 10) @ [digitChar (n mod 10)])"

declare decimal.simps [simp del]

text \<open>The verb \<open>%d\<close> on an \<open>int\<close>: a minus sign for a negative value, then the digits.\<close>

definition formatInt :: "goInt \<Rightarrow> string" where
  "formatInt i = (if sint i < 0 then CHR ''-'' # decimal (nat (- sint i)) else decimal (nat (sint i)))"

text \<open>The value of a run of decimal digits.\<close>

definition digitsValue :: "string \<Rightarrow> nat" where
  "digitsValue s = foldl (\<lambda>n c. n * 10 + digitVal c) 0 s"

text \<open>
  \<open>strconv.Atoi\<close> (standard library): an optional sign, then one or more decimal digits;
  anything else is a syntax error, and a value outside \<open>-2^63 .. 2^63 - 1\<close> is a range
  error. Both errors name the function and the text given.
\<close>

definition Atoi :: "string \<Rightarrow> error + goInt" where
  "Atoi s =
     (let neg = (s \<noteq> [] \<and> hd s = CHR ''-'');
          body = (if s \<noteq> [] \<and> (hd s = CHR ''-'' \<or> hd s = CHR ''+'') then tl s else s)
      in if body = [] \<or> \<not> list_all isDigit body then Inl (NumError ''Atoi'' s ErrSyntax)
         else if neg then
           (if digitsValue body > 2 ^ 63 then Inl (NumError ''Atoi'' s ErrRange)
            else Inr (- word_of_nat (digitsValue body)))
         else
           (if digitsValue body > 2 ^ 63 - 1 then Inl (NumError ''Atoi'' s ErrRange)
            else Inr (word_of_nat (digitsValue body))))"

section \<open>strings.TrimPrefix, strings.Split\<close>

definition TrimPrefix :: "string \<Rightarrow> string \<Rightarrow> string" where
  "TrimPrefix s p = (if prefix p s then drop (length p) s else s)"

text \<open>
  \<open>splitAcc sep cur s\<close> walks \<open>s\<close> with the piece read so far in \<open>cur\<close> (reversed); each
  occurrence of the separator closes a piece. \<open>Split\<close> with an empty separator cuts after
  every byte (the code only splits on \<open>"."\<close>).
\<close>

function splitAcc :: "string \<Rightarrow> string \<Rightarrow> string \<Rightarrow> string list" where
  "splitAcc sep cur [] = [rev cur]"
| "splitAcc sep cur (c # cs) =
     (if sep \<noteq> [] \<and> prefix sep (c # cs)
      then rev cur # splitAcc sep [] (drop (length sep) (c # cs))
      else splitAcc sep (c # cur) cs)"
  by pat_completeness auto
termination
  by (relation "measure (\<lambda>(sep, cur, s). length s)") auto

definition Split :: "string \<Rightarrow> string \<Rightarrow> string list" where
  "Split s sep = (if sep = [] then map (\<lambda>c. [c]) s else splitAcc sep [] s)"

section \<open>Regular expressions: regexp.MustCompile, MatchString\<close>

text \<open>
  The operators of Go's \<open>regexp/syntax\<close> that the pattern of the validator is built from
  (and the ones their derivatives need). \<open>CharClass lo hi\<close> is the class \<open>[lo-hi]\<close>.
  A compiled pattern records whether it starts with \<open>^\<close> and ends with \<open>$\<close>: without the
  multi-line flag these are the beginning and the end of the text.
\<close>

datatype syntaxRegexp =
    NoMatch
  | EmptyMatch
  | Literal char
  | CharClass char char
  | Concat syntaxRegexp syntaxRegexp
  | Alternate syntaxRegexp syntaxRegexp
  | Star syntaxRegexp
  | Plus syntaxRegexp

record Regexp =
  beginText :: bool
  expr :: syntaxRegexp
  endText :: bool

fun matchesEmpty :: "syntaxRegexp \<Rightarrow> bool" where
  "matchesEmpty NoMatch = False"
| "matchesEmpty EmptyMatch = True"
| "matchesEmpty (Literal c) = False"
| "matchesEmpty (CharClass lo hi) = False"
| "matchesEmpty (Concat r s) = (matchesEmpty r \<and> matchesEmpty s)"
| "matchesEmpty (Alternate r s) = (matchesEmpty r \<or> matchesEmpty s)"
| "matchesEmpty (Star r) = True"
| "matchesEmpty (Plus r) = matchesEmpty r"

text \<open>\<open>after c r\<close> matches what \<open>r\<close> matches once the byte \<open>c\<close> has been read.\<close>

fun after :: "char \<Rightarrow> syntaxRegexp \<Rightarrow> syntaxRegexp" where
  "after c NoMatch = NoMatch"
| "after c EmptyMatch = NoMatch"
| "after c (Literal d) = (if c = d then EmptyMatch else NoMatch)"
| "after c (CharClass lo hi) = (if lo \<le> c \<and> c \<le> hi then EmptyMatch else NoMatch)"
| "after c (Concat r s) =
     (if matchesEmpty r then Alternate (Concat (after c r) s) (after c s)
      else Concat (after c r) s)"
| "after c (Alternate r s) = Alternate (after c r) (after c s)"
| "after c (Star r) = Concat (after c r) (Star r)"
| "after c (Plus r) = Concat (after c r) (Star r)"

text \<open>The expression matches the whole of the text.\<close>

definition matchesAll :: "syntaxRegexp \<Rightarrow> string \<Rightarrow> bool" where
  "matchesAll r s = matchesEmpty (foldl (\<lambda>q c. after c q) r s)"

text \<open>
  \<open>MatchString\<close> reports whether the text contains a match: some part \<open>s[i:j]\<close> that the
  expression matches, starting at 0 when the pattern begins with \<open>^\<close> and ending at the
  end of the text when it ends with \<open>$\<close>.
\<close>

definition MatchString :: "Regexp \<Rightarrow> string \<Rightarrow> bool" where
  "MatchString re s =
     list_ex (\<lambda>i. list_ex (\<lambda>j.
         (beginText re \<longrightarrow> i = 0) \<and> (endText re \<longrightarrow> j = length s) \<and>
         matchesAll (expr re) (take (j - i) (drop i s)))
       [i ..< Suc (length s)])
     [0 ..< Suc (length s)]"

text \<open>The pattern \<^verbatim>\<open>^v[0-9]+\.[0-9]+\.[0-9]+$\<close>.\<close>

definition digits1 :: syntaxRegexp where
  "digits1 = Plus (CharClass (CHR ''0'') (CHR ''9''))"

definition versionPattern :: Regexp where
  "versionPattern =
     \<lparr>beginText = True,
      expr = Concat (Literal (CHR ''v'')) (Concat digits1 (Concat (Literal (CHR ''.''))
               (Concat digits1 (Concat (Literal (CHR ''.'')) digits1)))),
      endText = True\<rparr>"

text \<open>The language of an expression, for the proofs: what it means for a text to match.\<close>

inductive_set star :: "string set \<Rightarrow> string set" for A :: "string set" where
  star_empty: "[] \<in> star A"
| star_more: "u \<in> A \<Longrightarrow> v \<in> star A \<Longrightarrow> u @ v \<in> star A"

definition concLang :: "string set \<Rightarrow> string set \<Rightarrow> string set" where
  "concLang A B = {u @ v | u v. u \<in> A \<and> v \<in> B}"

fun lang :: "syntaxRegexp \<Rightarrow> string set" where
  "lang NoMatch = {}"
| "lang EmptyMatch = {[]}"
| "lang (Literal c) = {[c]}"
| "lang (CharClass lo hi) = {[c] | c. lo \<le> c \<and> c \<le> hi}"
| "lang (Concat r s) = concLang (lang r) (lang s)"
| "lang (Alternate r s) = lang r \<union> lang s"
| "lang (Star r) = star (lang r)"
| "lang (Plus r) = concLang (lang r) (star (lang r))"

section \<open>The format validator and the parser\<close>

definition validateVersionFormat :: "string \<Rightarrow> error option" where
  "validateVersionFormat version =
     (if \<not> MatchString versionPattern version then Some ErrVersionFormat else None)"

text \<open>
  What the specification says a version string is: a literal v, then three runs of one or
  more decimal digits separated by dots, and nothing else.
\<close>

definition digitRun :: "string \<Rightarrow> bool" where
  "digitRun a = (a \<noteq> [] \<and> list_all isDigit a)"

definition versionText :: "string \<Rightarrow> string \<Rightarrow> string \<Rightarrow> string" where
  "versionText a b c = ''v'' @ a @ ''.'' @ b @ ''.'' @ c"

definition isVersionString :: "string \<Rightarrow> bool" where
  "isVersionString s = (\<exists>a b c. digitRun a \<and> digitRun b \<and> digitRun c \<and> s = versionText a b c)"

text \<open>The loop of \<open>CastToVersion\<close> over the pieces: it stops at the first failed conversion.\<close>

fun atoiAll :: "string list \<Rightarrow> goInt list \<Rightarrow> error + goInt list" where
  "atoiAll [] intElements = Inr intElements"
| "atoiAll (s # stringElements) intElements =
     (case Atoi s of
        Inl err \<Rightarrow> Inl err
      | Inr i \<Rightarrow> atoiAll stringElements (intElements @ [i]))"

text \<open>
  \<open>CastToVersion\<close> returns a Version and an error; on every failure the Version is the zero
  value. Reading \<open>intElements[0..2]\<close> of a shorter slice panics.
\<close>

definition CastToVersion :: "string \<Rightarrow> Version \<times> error option" where
  "CastToVersion version =
     (case validateVersionFormat version of
        Some err \<Rightarrow> (zeroVersion, Some err)
      | None \<Rightarrow>
          (let stringElements = Split (TrimPrefix version ''v'') ''.'' in
           case atoiAll stringElements [] of
             Inl err \<Rightarrow> (zeroVersion, Some err)
           | Inr intElements \<Rightarrow>
               if length intElements < 3 then (zeroVersion, Some (Panic ''index out of range''))
               else (\<lparr>majorRelease = intElements ! 0, minorRelease = intElements ! 1,
                      bugFixRelease = intElements ! 2\<rparr>, None)))"

text \<open>\<open>Version.String\<close>: \<^verbatim>\<open>fmt.Sprintf("v%d.%d.%d", ...)\<close>.\<close>

definition String :: "Version \<Rightarrow> string" where
  "String v = ''v'' @ formatInt (majorRelease v) @ ''.'' @ formatInt (minorRelease v) @ ''.'' @
              formatInt (bugFixRelease v)"

section \<open>Natural ordering of strings\<close>

text \<open>
  Modelled from the spec: \<open>natsort.Sort\<close> belongs to the library
  \<open>github.com/facette/natsort\<close>, which is not under src/. The specification describes it
  as natural string ordering: the strings are cut into runs of digits and runs of other
  bytes, two digit runs are compared as integers, anything else as text, and a string
  that is a proper beginning of another comes first. The sort is stable.
\<close>

fun chunkify :: "string \<Rightarrow> string list" where
  "chunkify [] = []"
| "chunkify (c # cs) =
     (case chunkify cs of
        [] \<Rightarrow> [[c]]
      | [] # ks \<Rightarrow> [c] # ks
      | (d # k) # ks \<Rightarrow> if isDigit c = isDigit d then (c # d # k) # ks else [c] # (d # k) # ks)"

fun chunksLess :: "string list \<Rightarrow> string list \<Rightarrow> bool" where
  "chunksLess [] [] = False"
| "chunksLess [] (y # ys) = True"
| "chunksLess (x # xs) [] = False"
| "chunksLess (x # xs) (y # ys) =
     (if digitRun x \<and> digitRun y then
        (if digitsValue x = digitsValue y then chunksLess xs ys
         else digitsValue x < digitsValue y)
      else if x = y then chunksLess xs ys
      else x < y)"

text \<open>\<open>Compare a b\<close>: \<open>a\<close> comes before \<open>b\<close> in natural order.\<close>

definition Compare :: "string \<Rightarrow> string \<Rightarrow> bool" where
  "Compare a b = chunksLess (chunkify a) (chunkify b)"

fun insertNatural :: "string \<Rightarrow> string list \<Rightarrow> string list" where
  "insertNatural x [] = [x]"
| "insertNatural x (y # ys) = (if Compare x y then x # y # ys else y # insertNatural x ys)"

definition natsortSort :: "string list \<Rightarrow> string list" where
  "natsortSort l = foldl (\<lambda>sorted x. insertNatural x sorted) [] l"

section \<open>The latest-version selector\<close>

definition getLatestVersionTag :: "string list \<Rightarrow> Version \<times> error option" where
  "getLatestVersionTag tagList =
     (let versionList = filter (\<lambda>t. validateVersionFormat t = None) tagList in
      if length versionList = 0 then (zeroVersion, Some ErrNoVersionTagsFound)
      else
        (let sortedList = natsortSort versionList;
             latestVersionStr = sortedList ! (length sortedList - 1)
         in case CastToVersion latestVersionStr of
              (latestVersion, Some err) \<Rightarrow> (zeroVersion, Some err)
            | (latestVersion, None) \<Rightarrow> (latestVersion, None)))"

text \<open>Component-wise numeric order of Versions: major first, then minor, then bug fix.\<close>

definition versionLeq :: "Version \<Rightarrow> Version \<Rightarrow> bool" where
  "versionLeq v w =
     (sint (majorRelease v) < sint (majorRelease w) \<or>
      (majorRelease v = majorRelease w \<and>
        (sint (minorRelease v) < sint (minorRelease w) \<or>
         (minorRelease v = minorRelease w \<and> sint (bugFixRelease v) \<le> sint (bugFixRelease w)))))"

section \<open>The repository collaborator\<close>

text \<open>
  The repository is go-git's; the package only calls it. Its state and its answers are a
  record: whether the remote "origin" can be reached, the full names of the references
  the remote lists, the short name go-git gives to a reference name (a parameter:
  \<open>ReferenceName.Short\<close> is the library's), the hash of HEAD, the local tags, what has been
  pushed to origin, and a fault for each of the three operations that can fail for reasons
  outside this model (storage, network). The lines written to standard output are kept in
  the same record.
\<close>

type_synonym hash = string

record Repository =
  originRemote :: "error option"
  remoteRefs :: "error + string list"
  shortName :: "string \<Rightarrow> string"
  headHash :: "error + hash"
  localTags :: "(string \<times> hash) list"
  pushedTags :: "string list"
  createTagFault :: "error option"
  pushFault :: "error option"
  deleteTagFault :: "error option"
  stdout :: "string list"

definition Println :: "string \<Rightarrow> Repository \<Rightarrow> Repository" where
  "Println line repo = repo\<lparr>stdout := stdout repo @ [line]\<rparr>"

text \<open>\<open>repo.CreateTag\<close>: a tag of that name must not exist yet.\<close>

definition CreateTag :: "Repository \<Rightarrow> string \<Rightarrow> hash \<Rightarrow> error option \<times> Repository" where
  "CreateTag repo name h =
     (case createTagFault repo of
        Some err \<Rightarrow> (Some err, repo)
      | None \<Rightarrow>
          if name \<in> fst ` set (localTags repo) then (Some (GitError ''tag already exists''), repo)
          else (None, repo\<lparr>localTags := localTags repo @ [(name, h)]\<rparr>))"

text \<open>\<open>repo.DeleteTag\<close>: the tag must exist.\<close>

definition DeleteTag :: "Repository \<Rightarrow> string \<Rightarrow> error option \<times> Repository" where
  "DeleteTag repo name =
     (case deleteTagFault repo of
        Some err \<Rightarrow> (Some err, repo)
      | None \<Rightarrow>
          if name \<notin> fst ` set (localTags repo) then (Some (GitError ''tag not found''), repo)
          else (None, repo\<lparr>localTags := filter (\<lambda>t. fst t \<noteq> name) (localTags repo)\<rparr>))"

text \<open>\<open>repo.Push\<close> with the refspec \<^verbatim>\<open>refs/tags/*:refs/tags/*\<close>: every local tag goes to origin.\<close>

definition Push :: "Repository \<Rightarrow> error option \<times> Repository" where
  "Push repo =
     (case pushFault repo of
        Some err \<Rightarrow> (Some err, repo)
      | None \<Rightarrow>
          (None, repo\<lparr>pushedTags :=
             pushedTags repo @ filter (\<lambda>n. n \<notin> set (pushedTags repo)) (map fst (localTags repo))\<rparr>))"

section \<open>Fetching the remote's references\<close>

definition getRemoteGitTags :: "Repository \<Rightarrow> error + string list" where
  "getRemoteGitTags repo =
     (case originRemote repo of
        Some err \<Rightarrow> Inl (Wrap err ''unable to access remote repo'')
      | None \<Rightarrow>
          (case remoteRefs repo of
             Inl err \<Rightarrow> Inl (Wrap err ''unable to list references from remote repo'')
           | Inr refs \<Rightarrow>
               if length refs = 0 then Inl ErrNoTagsFound
               else Inr (foldl (\<lambda>tagList r. tagList @ [shortName repo r]) [] refs)))"

section \<open>The tag publisher\<close>

definition pushFailedRollbackFailed :: string where
  "pushFailedRollbackFailed =
     ''push local tag to remote failed, so attempted to rollback local tag. rollback local tag failed. May require manual cleanup.''"

definition tag :: "Repository \<Rightarrow> Version \<Rightarrow> error option \<times> Repository" where
  "tag repo newTagVersion =
     (let repo1 = Println (''new tag:  '' @ String newTagVersion) repo in
      case headHash repo1 of
        Inl err \<Rightarrow> (Some (Wrap err ''unable to get HEAD from the opened repo''), repo1)
      | Inr h \<Rightarrow>
          (case CreateTag repo1 (String newTagVersion) h of
             (Some err, repo2) \<Rightarrow>
               (Some (Wrap err
                  ''unable to create tag from the repo head hash and newly created tag version number. tag may already exist locally.''),
                repo2)
           | (None, repo2) \<Rightarrow>
               (let repo3 = Println
                      (''new tag has been created locally (view with 'git tag -l | tail'): '' @
                       String newTagVersion) repo2
                in case Push repo3 of
                     (Some err, repo4) \<Rightarrow>
                       (case DeleteTag repo4 (String newTagVersion) of
                          (Some rollbackErr, repo5) \<Rightarrow>
                            (Some (Wrap rollbackErr pushFailedRollbackFailed), repo5)
                        | (None, repo5) \<Rightarrow>
                            (Some (Wrap err ''unable to push new tag to remote repo''), repo5))
                   | (None, repo4) \<Rightarrow> (None, repo4))))"

section \<open>Orchestration\<close>

definition BumpVersion :: "Repository \<Rightarrow> bool \<Rightarrow> bool \<Rightarrow> error option \<times> Repository" where
  "BumpVersion repo major minor =
     (case getRemoteGitTags repo of
        Inl err \<Rightarrow> (Some (Wrap err ''Unable to get remote git tags from the repo''), repo)
      | Inr tagList \<Rightarrow>
          (case getLatestVersionTag tagList of
             (latestVersionTag, Some err) \<Rightarrow>
               if err = ErrNoVersionTagsFound then
                 tag (Println ''no version tags found, creating new tag version: v0.0.0'' repo)
                     zeroVersion
               else (Some (Wrap err ''unable to get latest version tag from the tag list''), repo)
           | (latestVersionTag, None) \<Rightarrow>
               (let repo1 = Println (''latest version tag at remote:  '' @ String latestVersionTag) repo
                in case incrementVersion latestVersionTag major minor of
                     (incrementedVersionTag, Some err) \<Rightarrow> (Some err, repo1)
                   | (incrementedVersionTag, None) \<Rightarrow>
                       tag (Println (''version tag incremented from '' @ String latestVersionTag @
                                     '' to '' @ String incrementedVersionTag) repo1)
                           incrementedVersionTag)))"

section \<open>An example repository\<close>

text \<open>
  A repository whose remote lists the given reference names, with nothing failing, no local
  tags, and a short-name function that drops \<^verbatim>\<open>refs/heads/\<close> or \<^verbatim>\<open>refs/tags/\<close>. Used to
  run the functions on concrete inputs.
\<close>

definition exampleRepo :: "string list \<Rightarrow> Repository" where
  "exampleRepo refs =
     \<lparr>originRemote = None,
      remoteRefs = Inr refs,
      shortName = (\<lambda>name. TrimPrefix (TrimPrefix name ''refs/heads/'') ''refs/tags/''),
      headHash = Inr ''c0ffee'',
      localTags = [],
      pushedTags = [],
      createTagFault = None,
      pushFault = None,
      deleteTagFault = None,
      stdout = []\<rparr>"

section \<open>The numbers of a version string\<close>

text \<open>
  For the proofs about the selector: the numbers a version string carries, in order. On
  version strings the natural order compares exactly these.
\<close>

definition versionKey :: "string \<Rightarrow> nat list" where
  "versionKey s = map digitsValue (Split (TrimPrefix s ''v'') ''.'')"

section \<open>The matcher decides the language of the expression\<close>

lemma Nil_in_concLang: "[] \<in> concLang A B \<longleftrightarrow> [] \<in> A \<and> [] \<in> B"
  by (auto simp: concLang_def)

lemma matchesEmpty_lang: "matchesEmpty r \<longleftrightarrow> [] \<in> lang r"
  by (induction r) (auto simp: Nil_in_concLang intro: star.star_empty)

lemma Cons_in_concLang:
  "c # w \<in> concLang A B \<longleftrightarrow>
     (\<exists>u v. c # u \<in> A \<and> v \<in> B \<and> w = u @ v) \<or> ([] \<in> A \<and> c # w \<in> B)"
proof
  assume "c # w \<in> concLang A B"
  then obtain x y where xy: "x \<in> A" "y \<in> B" "c # w = x @ y"
    by (auto simp: concLang_def)
  show "(\<exists>u v. c # u \<in> A \<and> v \<in> B \<and> w = u @ v) \<or> ([] \<in> A \<and> c # w \<in> B)"
  proof (cases x)
    case Nil
    with xy show ?thesis by simp
  next
    case (Cons d x')
    with xy have "d = c" "w = x' @ y" by simp_all
    with Cons xy show ?thesis by blast
  qed
next
  assume "(\<exists>u v. c # u \<in> A \<and> v \<in> B \<and> w = u @ v) \<or> ([] \<in> A \<and> c # w \<in> B)"
  then show "c # w \<in> concLang A B"
  proof
    assume "\<exists>u v. c # u \<in> A \<and> v \<in> B \<and> w = u @ v"
    then obtain u v where "c # u \<in> A" "v \<in> B" "w = u @ v" by blast
    then have "(c # u) @ v \<in> concLang A B" unfolding concLang_def by blast
    with \<open>w = u @ v\<close> show ?thesis by simp
  next
    assume "[] \<in> A \<and> c # w \<in> B"
    then have "[] @ (c # w) \<in> concLang A B" unfolding concLang_def by blast
    then show ?thesis by simp
  qed
qed

lemma star_Cons_decomp:
  assumes "x \<in> star A" and "x = c # w"
  shows "\<exists>u v. c # u \<in> A \<and> v \<in> star A \<and> w = u @ v"
  using assms
proof (induction rule: star.induct)
  case star_empty
  then show ?case by simp
next
  case (star_more u v)
  show ?case
  proof (cases u)
    case Nil
    with star_more show ?thesis by simp
  next
    case (Cons d u')
    with star_more have "d = c" "w = u' @ v" by simp_all
    with Cons star_more show ?thesis by blast
  qed
qed

lemma Cons_in_star:
  "c # w \<in> star A \<longleftrightarrow> (\<exists>u v. c # u \<in> A \<and> v \<in> star A \<and> w = u @ v)"
proof
  assume "c # w \<in> star A"
  then show "\<exists>u v. c # u \<in> A \<and> v \<in> star A \<and> w = u @ v"
    by (rule star_Cons_decomp) simp
next
  assume "\<exists>u v. c # u \<in> A \<and> v \<in> star A \<and> w = u @ v"
  then obtain u v where uv: "c # u \<in> A" "v \<in> star A" "w = u @ v" by blast
  then have "(c # u) @ v \<in> star A" by (intro star.star_more)
  with uv show "c # w \<in> star A" by simp
qed

lemma in_concLang: "w \<in> concLang A B \<longleftrightarrow> (\<exists>u v. u \<in> A \<and> v \<in> B \<and> w = u @ v)"
  by (auto simp: concLang_def)

lemma after_lang: "w \<in> lang (after c r) \<longleftrightarrow> c # w \<in> lang r"
proof (induction r arbitrary: w)
  case NoMatch
  show ?case by simp
next
  case EmptyMatch
  show ?case by simp
next
  case (Literal d)
  show ?case by auto
next
  case (CharClass lo hi)
  show ?case by auto
next
  case (Concat r s)
  have l: "w \<in> concLang (lang (after c r)) (lang s) \<longleftrightarrow>
           (\<exists>u v. c # u \<in> lang r \<and> v \<in> lang s \<and> w = u @ v)"
    by (simp add: in_concLang Concat.IH(1))
  show ?case
  proof (cases "matchesEmpty r")
    case True
    then have "w \<in> lang (after c (Concat r s)) \<longleftrightarrow>
               w \<in> concLang (lang (after c r)) (lang s) \<or> w \<in> lang (after c s)"
      by simp
    also have "\<dots> \<longleftrightarrow> c # w \<in> concLang (lang r) (lang s)"
      using True unfolding l Concat.IH(2) Cons_in_concLang matchesEmpty_lang by simp
    finally show ?thesis by simp
  next
    case False
    then have "w \<in> lang (after c (Concat r s)) \<longleftrightarrow>
               w \<in> concLang (lang (after c r)) (lang s)"
      by simp
    also have "\<dots> \<longleftrightarrow> c # w \<in> concLang (lang r) (lang s)"
      using False unfolding l Cons_in_concLang matchesEmpty_lang by simp
    finally show ?thesis by simp
  qed
next
  case (Alternate r s)
  then show ?case by simp
next
  case (Star r)
  have "w \<in> lang (after c (Star r)) \<longleftrightarrow> w \<in> concLang (lang (after c r)) (star (lang r))"
    by simp
  also have "\<dots> \<longleftrightarrow> (\<exists>u v. c # u \<in> lang r \<and> v \<in> star (lang r) \<and> w = u @ v)"
    by (simp add: in_concLang Star.IH)
  also have "\<dots> \<longleftrightarrow> c # w \<in> star (lang r)"
    by (rule Cons_in_star [symmetric])
  finally show ?case by simp
next
  case (Plus r)
  have "w \<in> concLang (lang (after c r)) (star (lang r)) \<longleftrightarrow>
        (\<exists>u v. c # u \<in> lang r \<and> v \<in> star (lang r) \<and> w = u @ v)"
    by (simp add: in_concLang Plus.IH)
  moreover have "c # w \<in> concLang (lang r) (star (lang r)) \<longleftrightarrow>
        (\<exists>u v. c # u \<in> lang r \<and> v \<in> star (lang r) \<and> w = u @ v)"
    unfolding Cons_in_concLang Cons_in_star [of c w] by blast
  ultimately show ?case by simp
qed

lemma matchesAll_lang: "matchesAll r s \<longleftrightarrow> s \<in> lang r"
proof (induction s arbitrary: r)
  case Nil
  show ?case by (simp add: matchesAll_def matchesEmpty_lang)
next
  case (Cons c s)
  have "matchesAll r (c # s) = matchesAll (after c r) s" by (simp add: matchesAll_def)
  with Cons show ?case by (simp add: after_lang)
qed

lemma MatchString_anchored:
  assumes "beginText re" and "endText re"
  shows "MatchString re s = matchesAll (expr re) s"
proof -
  have "MatchString re s \<longleftrightarrow>
        (\<exists>i\<in>{0..<Suc (length s)}. \<exists>j\<in>{i..<Suc (length s)}.
           i = 0 \<and> j = length s \<and> matchesAll (expr re) (take (j - i) (drop i s)))"
    using assms by (simp add: MatchString_def list_ex_iff)
  also have "\<dots> \<longleftrightarrow> matchesAll (expr re) s"
    by auto
  finally show ?thesis .
qed

lemma star_charclass: "w \<in> star {[c] |c. P c} \<longleftrightarrow> list_all P w"
proof
  assume "w \<in> star {[c] |c. P c}"
  then show "list_all P w" by (induction rule: star.induct) auto
next
  assume "list_all P w"
  then show "w \<in> star {[c] |c. P c}"
  proof (induction w)
    case Nil
    show ?case by (rule star.star_empty)
  next
    case (Cons c w)
    then have "[c] \<in> {[c] |c. P c}" "w \<in> star {[c] |c. P c}" by auto
    then have "[c] @ w \<in> star {[c] |c. P c}" by (rule star.star_more)
    then show ?case by simp
  qed
qed

lemma lang_digits1: "a \<in> lang digits1 \<longleftrightarrow> digitRun a"
proof -
  have eq: "{[c] |c. CHR ''0'' \<le> c \<and> c \<le> CHR ''9''} = {[c] |c. isDigit c}"
    by (simp add: isDigit_def)
  show ?thesis
    by (cases a) (auto simp: digits1_def digitRun_def in_concLang eq star_charclass)
qed

lemma concLangI: "u \<in> A \<Longrightarrow> v \<in> B \<Longrightarrow> u @ v \<in> concLang A B"
  by (auto simp: concLang_def)

lemma lang_versionPattern: "s \<in> lang (expr versionPattern) \<longleftrightarrow> isVersionString s"
proof
  assume "s \<in> lang (expr versionPattern)"
  then show "isVersionString s"
    by (auto simp: versionPattern_def in_concLang lang_digits1 isVersionString_def versionText_def)
next
  assume "isVersionString s"
  then obtain a b c where abc: "digitRun a" "digitRun b" "digitRun c"
    and s: "s = ''v'' @ a @ ''.'' @ b @ ''.'' @ c"
    by (auto simp: isVersionString_def versionText_def)
  have dot: "''.'' \<in> lang (Literal (CHR ''.''))" and v: "''v'' \<in> lang (Literal (CHR ''v''))"
    by simp_all
  from abc have "a \<in> lang digits1" "b \<in> lang digits1" "c \<in> lang digits1"
    by (simp_all add: lang_digits1)
  then have "''v'' @ a @ ''.'' @ b @ ''.'' @ c \<in> lang (expr versionPattern)"
    unfolding versionPattern_def Regexp.simps lang.simps(5)
    by (intro concLangI dot v)
  with s show "s \<in> lang (expr versionPattern)" by simp
qed

lemma validateVersionFormat_iff: "validateVersionFormat s = None \<longleftrightarrow> isVersionString s"
proof -
  have "MatchString versionPattern s = matchesAll (expr versionPattern) s"
    by (rule MatchString_anchored) (simp_all add: versionPattern_def)
  then show ?thesis
    by (simp add: validateVersionFormat_def matchesAll_lang lang_versionPattern)
qed

lemma validateVersionFormat_cases:
  "validateVersionFormat s = (if isVersionString s then None else Some ErrVersionFormat)"
  using validateVersionFormat_iff [of s] by (auto simp: validateVersionFormat_def)

lemma isVersionString_starts:
  assumes "isVersionString s"
  shows "\<exists>d rest. s = CHR ''v'' # d # rest \<and> isDigit d"
proof -
  from assms obtain a b c where a: "digitRun a" and s: "s = versionText a b c"
    by (auto simp: isVersionString_def)
  from a obtain d a' where "a = d # a'" "isDigit d"
    by (cases a) (auto simp: digitRun_def)
  with s show ?thesis by (simp add: versionText_def)
qed

lemma isVersionStringI:
  "digitRun a \<Longrightarrow> digitRun b \<Longrightarrow> digitRun c \<Longrightarrow> s = versionText a b c \<Longrightarrow> isVersionString s"
  by (auto simp: isVersionString_def)

section \<open>The format validator\<close>

text \<open>
  Claim C3. For every string \<open>s\<close>, the validator returns no error exactly when \<open>s\<close> is a
  literal v followed by three runs of one or more decimal digits separated by dots, with
  nothing before or after (the strings matching \<^verbatim>\<open>^v\d+\.\d+\.\d+$\<close>, which are also the
  language of the compiled expression); on every other string it returns
  \<open>ErrVersionFormat\<close>.
\<close>

theorem validateVersionFormat_regexp:
  "(validateVersionFormat s = None \<longleftrightarrow> isVersionString s) \<and>
   (isVersionString s \<longleftrightarrow> s \<in> lang (expr versionPattern)) \<and>
   (\<not> isVersionString s \<longrightarrow> validateVersionFormat s = Some ErrVersionFormat)"
  by (simp add: validateVersionFormat_cases lang_versionPattern)

theorem validateVersionFormat_regexp_witness:
  "validateVersionFormat ''v143.73234.12'' = None \<and>
   validateVersionFormat ''v.73234.12'' = Some ErrVersionFormat"
proof -
  have yes: "isVersionString ''v143.73234.12''"
    by (rule isVersionStringI [of "''143''" "''73234''" "''12''"])
       (simp_all add: digitRun_def isDigit_def versionText_def)
  have no: "\<not> isVersionString ''v.73234.12''"
  proof
    assume "isVersionString ''v.73234.12''"
    from isVersionString_starts [OF this] show False by (simp add: isDigit_def)
  qed
  from yes no validateVersionFormat_regexp [of "''v143.73234.12''"]
    validateVersionFormat_regexp [of "''v.73234.12''"]
  show ?thesis by simp
qed

section \<open>Splitting, converting and formatting a version string\<close>

lemma isDigit_nat: "isDigit c \<longleftrightarrow> 48 \<le> (of_char c :: nat) \<and> (of_char c :: nat) \<le> 57"
  by (simp add: isDigit_def less_eq_char_def)

lemma isDigit_not_special:
  assumes "isDigit c"
  shows "c \<noteq> CHR ''.''" and "c \<noteq> CHR ''-''" and "c \<noteq> CHR ''+''" and "c \<noteq> CHR ''v''"
  using assms by (auto simp: isDigit_nat)

lemma digitRun_no_dot: "digitRun a \<Longrightarrow> CHR ''.'' \<notin> set a"
  by (auto simp: digitRun_def list_all_iff dest: isDigit_not_special(1))

lemma splitAcc_no_sep: "CHR ''.'' \<notin> set a \<Longrightarrow> splitAcc ''.'' cur a = [rev cur @ a]"
  by (induction a arbitrary: cur) auto

lemma splitAcc_sep:
  "CHR ''.'' \<notin> set a \<Longrightarrow>
   splitAcc ''.'' cur (a @ CHR ''.'' # rest) = (rev cur @ a) # splitAcc ''.'' [] rest"
  by (induction a arbitrary: cur) auto

lemma Split_three:
  assumes "digitRun a" and "digitRun b" and "digitRun c"
  shows "Split (a @ CHR ''.'' # b @ CHR ''.'' # c) ''.'' = [a, b, c]"
  using assms by (simp add: Split_def splitAcc_sep splitAcc_no_sep digitRun_no_dot)

lemma TrimPrefix_versionText: "TrimPrefix (versionText a b c) ''v'' = a @ CHR ''.'' # b @ CHR ''.'' # c"
  by (simp add: TrimPrefix_def versionText_def)

lemma Atoi_digitRun:
  assumes "digitRun a"
  shows "Atoi a = (if digitsValue a > 2 ^ 63 - 1 then Inl (NumError ''Atoi'' a ErrRange)
                   else Inr (word_of_nat (digitsValue a)))"
proof -
  from assms obtain d a' where a: "a = d # a'" and d: "isDigit d" and all: "list_all isDigit a"
    by (cases a) (auto simp: digitRun_def)
  from d have "d \<noteq> CHR ''-''" "d \<noteq> CHR ''+''" by (rule isDigit_not_special)+
  with a all show ?thesis by (simp add: Atoi_def)
qed

lemma Atoi_error: "Atoi p = Inl e \<Longrightarrow> \<exists>k. e = NumError ''Atoi'' p k"
  by (auto simp: Atoi_def Let_def split: if_splits)

lemma atoiAll_fail:
  "\<exists>p\<in>set ps. isl (Atoi p) \<Longrightarrow> \<exists>p\<in>set ps. \<exists>e. Atoi p = Inl e \<and> atoiAll ps acc = Inl e"
proof (induction ps arbitrary: acc)
  case Nil
  then show ?case by simp
next
  case (Cons q ps)
  show ?case
  proof (cases "Atoi q")
    case (Inl e)
    then show ?thesis by auto
  next
    case (Inr i)
    with Cons.prems have "\<exists>p\<in>set ps. isl (Atoi p)" by auto
    from Cons.IH [OF this, of "acc @ [i]"] Inr show ?thesis by auto
  qed
qed

lemma CastToVersion_versionText:
  assumes "digitRun a" and "digitRun b" and "digitRun c"
  shows "CastToVersion (versionText a b c) =
     (if digitsValue a > 2 ^ 63 - 1 then (zeroVersion, Some (NumError ''Atoi'' a ErrRange))
      else if digitsValue b > 2 ^ 63 - 1 then (zeroVersion, Some (NumError ''Atoi'' b ErrRange))
      else if digitsValue c > 2 ^ 63 - 1 then (zeroVersion, Some (NumError ''Atoi'' c ErrRange))
      else (\<lparr>majorRelease = word_of_nat (digitsValue a), minorRelease = word_of_nat (digitsValue b),
             bugFixRelease = word_of_nat (digitsValue c)\<rparr>, None))"
proof -
  have "isVersionString (versionText a b c)"
    using assms by (auto simp: isVersionString_def)
  then have v: "validateVersionFormat (versionText a b c) = None"
    by (simp add: validateVersionFormat_iff)
  show ?thesis
    using assms
    by (simp add: CastToVersion_def v TrimPrefix_versionText Split_three Atoi_digitRun)
qed

lemma of_char_digitChar: "d < 10 \<Longrightarrow> (of_char (digitChar d) :: nat) = 48 + d"
  by (simp add: digitChar_def)

lemma isDigit_digitChar: "d < 10 \<Longrightarrow> isDigit (digitChar d)"
  by (simp add: isDigit_nat of_char_digitChar)

lemma digitVal_digitChar: "d < 10 \<Longrightarrow> digitVal (digitChar d) = d"
  by (simp add: digitVal_def of_char_digitChar)

lemma digitsValue_snoc: "digitsValue (xs @ [c]) = digitsValue xs * 10 + digitVal c"
  by (simp add: digitsValue_def)

lemma decimal_digitRun: "digitRun (decimal n)"
proof (induction n rule: decimal.induct)
  case (1 n)
  show ?case
  proof (cases "n < 10")
    case True
    then show ?thesis by (subst decimal.simps) (simp add: digitRun_def isDigit_digitChar)
  next
    case False
    with 1 have "digitRun (decimal (n div 10))" by simp
    with False show ?thesis
      by (subst decimal.simps) (simp add: digitRun_def isDigit_digitChar)
  qed
qed

lemma digitsValue_decimal: "digitsValue (decimal n) = n"
proof (induction n rule: decimal.induct)
  case (1 n)
  show ?case
  proof (cases "n < 10")
    case True
    then show ?thesis
      by (subst decimal.simps) (simp add: digitsValue_def digitVal_digitChar)
  next
    case False
    with 1 have "digitsValue (decimal (n div 10)) = n div 10" by simp
    with False show ?thesis
      by (subst decimal.simps) (simp add: digitsValue_snoc digitVal_digitChar)
  qed
qed

lemma formatInt_nonneg: "0 \<le> sint i \<Longrightarrow> formatInt i = decimal (nat (sint i))"
  by (simp add: formatInt_def)

lemma nat_sint_bound: "nat (sint (i :: goInt)) \<le> 2 ^ 63 - 1"
proof -
  have "sint i < 2 ^ 63" using sint_lt [of i] by simp
  then show ?thesis by simp
qed

lemma word_of_nat_nat_sint: "0 \<le> sint (i :: goInt) \<Longrightarrow> word_of_nat (nat (sint i)) = i"
  by (simp add: of_nat_nat)

lemma sint_word_of_nat: "n \<le> 2 ^ 63 - 1 \<Longrightarrow> sint (word_of_nat n :: goInt) = int n"
  by (simp add: signed_of_nat signed_take_bit_int_eq_self)

lemma bigVersion_parts:
  "Split (TrimPrefix ''v9223372036854775808.0.0'' ''v'') ''.'' = [''9223372036854775808'', ''0'', ''0'']"
proof -
  have "''v9223372036854775808.0.0'' = versionText ''9223372036854775808'' ''0'' ''0''"
    by (simp add: versionText_def)
  then show ?thesis
    by (simp only: TrimPrefix_versionText)
       (rule Split_three; simp add: digitRun_def isDigit_def)
qed

lemma Atoi_big: "Atoi ''9223372036854775808'' = Inl (NumError ''Atoi'' ''9223372036854775808'' ErrRange)"
  by (simp add: Atoi_def digitsValue_def digitVal_def isDigit_def)

lemma Atoi_zero: "Atoi ''0'' = Inr 0"
  by (simp add: Atoi_def digitsValue_def digitVal_def isDigit_def)

lemma validate_big: "validateVersionFormat ''v9223372036854775808.0.0'' = None"
  unfolding validateVersionFormat_iff
  by (rule isVersionStringI [of "''9223372036854775808''" "''0''" "''0''"])
     (simp_all add: digitRun_def isDigit_def versionText_def)

lemma validate_no_v: "validateVersionFormat ''0.0.0'' = Some ErrVersionFormat"
proof -
  have "\<not> isVersionString ''0.0.0''"
    using isVersionString_starts [of "''0.0.0''"] by auto
  then show ?thesis by (simp add: validateVersionFormat_cases)
qed

lemma digitChar_eq: "d < 10 \<Longrightarrow> digitChar d = c \<longleftrightarrow> (of_char c :: nat) = 48 + d"
  using of_char_digitChar [of d] of_char_eq_iff [of "digitChar d" c, where ?'a = nat] by auto

lemma String_versionText:
  assumes "0 \<le> sint (majorRelease v)" and "0 \<le> sint (minorRelease v)"
    and "0 \<le> sint (bugFixRelease v)"
  shows "String v = versionText (decimal (nat (sint (majorRelease v))))
           (decimal (nat (sint (minorRelease v)))) (decimal (nat (sint (bugFixRelease v))))"
  using assms by (simp add: String_def versionText_def formatInt_nonneg)

section \<open>The parser\<close>

text \<open>
  Claim C7. When the validator rejects a string, \<open>CastToVersion\<close> returns the validator's
  error as it is. When the validator accepts a string and the conversion of one of its
  pieces fails, \<open>CastToVersion\<close> returns the error of a failed conversion (the first one):
  a \<open>NumError\<close> of \<open>Atoi\<close> on that piece, not \<open>ErrVersionFormat\<close>. The witness is a major
  component of \<open>2^63\<close>, one more than the largest \<open>int\<close>.
\<close>

theorem CastToVersion_errors:
  "(validateVersionFormat s = Some e \<longrightarrow> CastToVersion s = (zeroVersion, Some e)) \<and>
   (validateVersionFormat s = None \<and> (\<exists>p\<in>set (Split (TrimPrefix s ''v'') ''.''). isl (Atoi p)) \<longrightarrow>
      (\<exists>p\<in>set (Split (TrimPrefix s ''v'') ''.''). \<exists>k.
         Atoi p = Inl (NumError ''Atoi'' p k) \<and>
         CastToVersion s = (zeroVersion, Some (NumError ''Atoi'' p k))))"
proof (intro conjI impI)
  assume "validateVersionFormat s = Some e"
  then show "CastToVersion s = (zeroVersion, Some e)" by (simp add: CastToVersion_def)
next
  assume h: "validateVersionFormat s = None \<and>
             (\<exists>p\<in>set (Split (TrimPrefix s ''v'') ''.''). isl (Atoi p))"
  then obtain p e where p: "p \<in> set (Split (TrimPrefix s ''v'') ''.'')"
    and e: "Atoi p = Inl e" "atoiAll (Split (TrimPrefix s ''v'') ''.'') [] = Inl e"
    using atoiAll_fail [of "Split (TrimPrefix s ''v'') ''.''" "[]"] by blast
  from Atoi_error [OF e(1)] obtain k where k: "e = NumError ''Atoi'' p k" by blast
  from h e(2) have "CastToVersion s = (zeroVersion, Some e)"
    by (simp add: CastToVersion_def)
  with p e(1) k
  show "\<exists>p\<in>set (Split (TrimPrefix s ''v'') ''.''). \<exists>k.
         Atoi p = Inl (NumError ''Atoi'' p k) \<and>
         CastToVersion s = (zeroVersion, Some (NumError ''Atoi'' p k))"
    by blast
qed

theorem CastToVersion_errors_witness:
  "CastToVersion ''0.0.0'' = (zeroVersion, Some ErrVersionFormat) \<and>
   CastToVersion ''v9223372036854775808.0.0'' =
     (zeroVersion, Some (NumError ''Atoi'' ''9223372036854775808'' ErrRange))"
proof -
  have 1: "CastToVersion ''0.0.0'' = (zeroVersion, Some ErrVersionFormat)"
    using CastToVersion_errors [of "''0.0.0''" ErrVersionFormat] validate_no_v by simp
  have "\<exists>p\<in>set (Split (TrimPrefix ''v9223372036854775808.0.0'' ''v'') ''.''). isl (Atoi p)"
    by (simp add: bigVersion_parts Atoi_big)
  with CastToVersion_errors [of "''v9223372036854775808.0.0''" ErrVersionFormat] validate_big
  have "\<exists>p\<in>set (Split (TrimPrefix ''v9223372036854775808.0.0'' ''v'') ''.''). \<exists>k.
         Atoi p = Inl (NumError ''Atoi'' p k) \<and>
         CastToVersion ''v9223372036854775808.0.0'' = (zeroVersion, Some (NumError ''Atoi'' p k))"
    by blast
  then have 2: "CastToVersion ''v9223372036854775808.0.0'' =
     (zeroVersion, Some (NumError ''Atoi'' ''9223372036854775808'' ErrRange))"
    by (auto simp: bigVersion_parts Atoi_big Atoi_zero)
  from 1 2 show ?thesis by simp
qed

text \<open>
  Claim C4. Round trip: for every Version whose three components are not negative,
  parsing its canonical string gives back the same Version and no error.
\<close>

theorem CastToVersion_String:
  fixes v :: Version
  assumes "0 \<le> sint (majorRelease v)" and "0 \<le> sint (minorRelease v)"
    and "0 \<le> sint (bugFixRelease v)"
  shows "CastToVersion (String v) = (v, None)"
proof -
  have le: "\<And>i :: goInt. \<not> 2 ^ 63 - 1 < nat (sint i)"
    using nat_sint_bound by (simp add: not_less)
  show ?thesis
    unfolding String_versionText [OF assms]
    using assms le
    by (simp add: CastToVersion_versionText decimal_digitRun digitsValue_decimal
        word_of_nat_nat_sint)
qed

theorem CastToVersion_String_witness:
  "String \<lparr>majorRelease = 3, minorRelease = 5, bugFixRelease = 12\<rparr> = ''v3.5.12'' \<and>
   CastToVersion ''v3.5.12'' = (\<lparr>majorRelease = 3, minorRelease = 5, bugFixRelease = 12\<rparr>, None)"
proof -
  have s: "String \<lparr>majorRelease = 3, minorRelease = 5, bugFixRelease = 12\<rparr> = ''v3.5.12''"
    by (simp add: String_def formatInt_def decimal.simps digitChar_eq)
  have "CastToVersion (String \<lparr>majorRelease = 3, minorRelease = 5, bugFixRelease = 12\<rparr>) =
        (\<lparr>majorRelease = 3, minorRelease = 5, bugFixRelease = 12\<rparr>, None)"
    by (rule CastToVersion_String) simp_all
  with s show ?thesis by simp
qed

section \<open>Natural order on version strings\<close>

lemma chunkify_Nil_iff: "chunkify s = [] \<longleftrightarrow> s = []"
  by (cases s) (auto split: list.splits)

lemma chunkify_first:
  "s \<noteq> [] \<Longrightarrow> \<exists>k ks. chunkify s = (hd s # k) # ks"
  by (cases s) (auto split: list.splits)

lemma chunkify_single:
  assumes "rest = [] \<or> isDigit x \<noteq> isDigit (hd rest)"
  shows "chunkify (x # rest) = [x] # chunkify rest"
proof (cases "rest = []")
  case True
  then show ?thesis by simp
next
  case False
  from chunkify_first [OF this] obtain k ks where "chunkify rest = (hd rest # k) # ks" by blast
  with assms False show ?thesis by simp
qed

lemma chunkify_same:
  assumes "rest \<noteq> []" and "isDigit x = isDigit (hd rest)"
  shows "chunkify (x # rest) = (x # hd (chunkify rest)) # tl (chunkify rest)"
proof -
  from chunkify_first [OF assms(1)] obtain k ks where "chunkify rest = (hd rest # k) # ks" by blast
  with assms show ?thesis by simp
qed

lemma chunkify_digits:
  assumes "digitRun a" and "rest = [] \<or> \<not> isDigit (hd rest)"
  shows "chunkify (a @ rest) = a # chunkify rest"
proof -
  from assms(1) have "a \<noteq> []" and "list_all isDigit a" by (simp_all add: digitRun_def)
  then show ?thesis
  proof (induction a rule: list_nonempty_induct)
    case (single d)
    with assms(2) have "rest = [] \<or> isDigit d \<noteq> isDigit (hd rest)" by auto
    from chunkify_single [OF this] show ?case by (simp del: chunkify.simps)
  next
    case (cons d a')
    then have ih: "chunkify (a' @ rest) = a' # chunkify rest" by simp
    from cons have "a' @ rest \<noteq> []" "isDigit d = isDigit (hd (a' @ rest))"
      by (cases a'; simp)+
    from chunkify_same [OF this] ih show ?case by (simp del: chunkify.simps)
  qed
qed

lemma digitRun_hd: "digitRun a \<Longrightarrow> a \<noteq> [] \<and> isDigit (hd a)"
  by (cases a) (auto simp: digitRun_def)

lemma not_isDigit_v_dot: "\<not> isDigit (CHR ''v'')" "\<not> isDigit (CHR ''.'')"
  by (simp_all add: isDigit_def)

lemma chunkify_versionText:
  assumes "digitRun a" and "digitRun b" and "digitRun c"
  shows "chunkify (versionText a b c) = [''v'', a, ''.'', b, ''.'', c]"
proof -
  have c: "chunkify c = [c]"
    using chunkify_digits [OF assms(3), of "[]"] by (simp del: chunkify.simps(2))
  have dc: "chunkify (CHR ''.'' # c) = [''.'', c]"
    using digitRun_hd [OF assms(3)] c by (simp add: chunkify_single not_isDigit_v_dot del: chunkify.simps)
  have bdc: "chunkify (b @ CHR ''.'' # c) = [b, ''.'', c]"
    using chunkify_digits [OF assms(2), of "CHR ''.'' # c"] dc by (simp add: not_isDigit_v_dot del: chunkify.simps)
  have "b @ CHR ''.'' # c \<noteq> []" "isDigit (hd (b @ CHR ''.'' # c))"
    using digitRun_hd [OF assms(2)] by simp_all
  then have dbdc: "chunkify (CHR ''.'' # b @ CHR ''.'' # c) = [''.'', b, ''.'', c]"
    using bdc by (simp add: chunkify_single not_isDigit_v_dot del: chunkify.simps)
  have abdc: "chunkify (a @ CHR ''.'' # b @ CHR ''.'' # c) = [a, ''.'', b, ''.'', c]"
    using chunkify_digits [OF assms(1), of "CHR ''.'' # b @ CHR ''.'' # c"] dbdc
    by (simp add: not_isDigit_v_dot del: chunkify.simps)
  have "a @ CHR ''.'' # b @ CHR ''.'' # c \<noteq> []" "isDigit (hd (a @ CHR ''.'' # b @ CHR ''.'' # c))"
    using digitRun_hd [OF assms(1)] by simp_all
  then have "chunkify (CHR ''v'' # a @ CHR ''.'' # b @ CHR ''.'' # c) = [''v'', a, ''.'', b, ''.'', c]"
    using abdc by (simp add: chunkify_single not_isDigit_v_dot del: chunkify.simps)
  then show ?thesis by (simp add: versionText_def del: chunkify.simps)
qed

lemma versionKey_versionText:
  assumes "digitRun a" and "digitRun b" and "digitRun c"
  shows "versionKey (versionText a b c) = [digitsValue a, digitsValue b, digitsValue c]"
  using assms by (simp add: versionKey_def TrimPrefix_versionText Split_three)

lemma Compare_versionText:
  assumes "digitRun a" "digitRun b" "digitRun c" "digitRun a'" "digitRun b'" "digitRun c'"
  shows "Compare (versionText a b c) (versionText a' b' c') \<longleftrightarrow>
         [digitsValue a, digitsValue b, digitsValue c] < [digitsValue a', digitsValue b', digitsValue c']"
proof -
  have nd: "\<not> digitRun ''v''" "\<not> digitRun ''.''"
    by (simp_all add: digitRun_def isDigit_def)
  show ?thesis
    using assms nd by (simp add: Compare_def chunkify_versionText)
qed

lemma Compare_versionKey:
  assumes "isVersionString x" and "isVersionString y"
  shows "Compare x y \<longleftrightarrow> versionKey x < versionKey y"
proof -
  from assms obtain a b c a' b' c' where
    "digitRun a" "digitRun b" "digitRun c" "x = versionText a b c"
    "digitRun a'" "digitRun b'" "digitRun c'" "y = versionText a' b' c'"
    by (auto simp: isVersionString_def)
  then show ?thesis by (simp add: Compare_versionText versionKey_versionText)
qed

lemma set_insertNatural: "set (insertNatural x ys) = insert x (set ys)"
  by (induction ys) auto

lemma sorted_insertNatural:
  assumes "isVersionString x" and "\<forall>y\<in>set ys. isVersionString y"
    and "sorted (map versionKey ys)"
  shows "sorted (map versionKey (insertNatural x ys))"
  using assms(2,3)
proof (induction ys)
  case Nil
  show ?case by simp
next
  case (Cons y ys)
  show ?case
  proof (cases "Compare x y")
    case True
    then have "versionKey x < versionKey y"
      using Compare_versionKey [OF assms(1), of y] Cons.prems(1) by simp
    with True Cons.prems(2) show ?thesis by (auto simp: less_imp_le)
  next
    case False
    then have "versionKey y \<le> versionKey x"
      using Compare_versionKey [OF assms(1), of y] Cons.prems(1) by (simp add: not_less)
    moreover have "sorted (map versionKey (insertNatural x ys))"
      using Cons by simp
    ultimately show ?thesis
      using False Cons.prems(2) by (auto simp: set_insertNatural)
  qed
qed

lemma foldl_insertNatural:
  assumes "\<forall>y\<in>set acc. isVersionString y" and "\<forall>y\<in>set xs. isVersionString y"
    and "sorted (map versionKey acc)"
  shows "sorted (map versionKey (foldl (\<lambda>sorted x. insertNatural x sorted) acc xs)) \<and>
         set (foldl (\<lambda>sorted x. insertNatural x sorted) acc xs) = set acc \<union> set xs"
  using assms
proof (induction xs arbitrary: acc)
  case Nil
  then show ?case by simp
next
  case (Cons x xs)
  have 1: "\<forall>y\<in>set (insertNatural x acc). isVersionString y"
    using Cons.prems(1,2) by (simp add: set_insertNatural)
  have 2: "sorted (map versionKey (insertNatural x acc))"
    using Cons.prems by (intro sorted_insertNatural) simp_all
  from Cons.IH [OF 1 _ 2] Cons.prems(2) show ?case
    by (simp add: set_insertNatural)
qed

lemma natsortSort_sorted:
  assumes "\<forall>y\<in>set xs. isVersionString y"
  shows "sorted (map versionKey (natsortSort xs))" and "set (natsortSort xs) = set xs"
  using foldl_insertNatural [of "[]" xs] assms by (simp_all add: natsortSort_def)

lemma sorted_map_last:
  assumes "sorted (map f ys)" and "y \<in> set ys"
  shows "f y \<le> f (last ys)"
  using assms by (induction ys) (auto split: if_splits)

lemma in_range_parts:
  assumes "digitRun a" and "digitRun b" and "digitRun c"
    and "snd (CastToVersion (versionText a b c)) = None"
  shows "digitsValue a \<le> 2 ^ 63 - 1 \<and> digitsValue b \<le> 2 ^ 63 - 1 \<and> digitsValue c \<le> 2 ^ 63 - 1"
  using assms(4) unfolding CastToVersion_versionText [OF assms(1-3)]
  by (auto split: if_splits simp: not_less)

lemma word_of_nat_inj_range:
  assumes "n \<le> 2 ^ 63 - 1" and "m \<le> 2 ^ 63 - 1"
  shows "(word_of_nat n :: goInt) = word_of_nat m \<longleftrightarrow> n = m"
proof
  assume "(word_of_nat n :: goInt) = word_of_nat m"
  then have "sint (word_of_nat n :: goInt) = sint (word_of_nat m :: goInt)" by (rule arg_cong)
  then have "int n = int m"
    unfolding sint_word_of_nat [OF assms(1)] sint_word_of_nat [OF assms(2)] .
  then show "n = m" by (rule of_nat_eq_iff [THEN iffD1])
next
  assume "n = m"
  then show "(word_of_nat n :: goInt) = word_of_nat m" by (rule arg_cong)
qed

lemma versionLeq_versionKey:
  assumes "isVersionString x" and "snd (CastToVersion x) = None"
    and "isVersionString y" and "snd (CastToVersion y) = None"
  shows "versionLeq (fst (CastToVersion x)) (fst (CastToVersion y)) \<longleftrightarrow> versionKey x \<le> versionKey y"
proof -
  from assms(1,3) obtain a b c a' b' c' where
    x: "digitRun a" "digitRun b" "digitRun c" "x = versionText a b c" and
    y: "digitRun a'" "digitRun b'" "digitRun c'" "y = versionText a' b' c'"
    by (auto simp: isVersionString_def)
  from in_range_parts [OF x(1-3)] assms(2) x(4)
  have rx: "digitsValue a \<le> 2 ^ 63 - 1" "digitsValue b \<le> 2 ^ 63 - 1" "digitsValue c \<le> 2 ^ 63 - 1"
    by simp_all
  from in_range_parts [OF y(1-3)] assms(4) y(4)
  have ry: "digitsValue a' \<le> 2 ^ 63 - 1" "digitsValue b' \<le> 2 ^ 63 - 1" "digitsValue c' \<le> 2 ^ 63 - 1"
    by simp_all
  have cx: "fst (CastToVersion (versionText a b c)) = \<lparr>majorRelease = word_of_nat (digitsValue a),
      minorRelease = word_of_nat (digitsValue b), bugFixRelease = word_of_nat (digitsValue c)\<rparr>"
    using rx unfolding CastToVersion_versionText [OF x(1-3)] by (simp add: not_less)
  have cy: "fst (CastToVersion (versionText a' b' c')) = \<lparr>majorRelease = word_of_nat (digitsValue a'),
      minorRelease = word_of_nat (digitsValue b'), bugFixRelease = word_of_nat (digitsValue c')\<rparr>"
    using ry unfolding CastToVersion_versionText [OF y(1-3)] by (simp add: not_less)
  show ?thesis
    unfolding x(4) y(4) cx cy versionKey_versionText [OF x(1-3)] versionKey_versionText [OF y(1-3)]
    using rx ry
    by (simp add: versionLeq_def sint_word_of_nat word_of_nat_inj_range) linarith
qed

section \<open>The latest-version selector\<close>

lemma CastToVersion_big:
  "CastToVersion ''v9223372036854775808.0.0'' =
     (zeroVersion, Some (NumError ''Atoi'' ''9223372036854775808'' ErrRange))"
proof -
  have "''v9223372036854775808.0.0'' = versionText ''9223372036854775808'' ''0'' ''0''"
    by (simp add: versionText_def)
  moreover have "digitRun ''9223372036854775808''" "digitRun ''0''"
    by (simp_all add: digitRun_def isDigit_def)
  moreover have "digitsValue ''9223372036854775808'' = 9223372036854775808"
    by (simp add: digitsValue_def digitVal_def)
  ultimately show ?thesis by (simp only: CastToVersion_versionText) simp
qed

lemma CastToVersion_small:
  "CastToVersion ''v0.0.25'' = (\<lparr>majorRelease = 0, minorRelease = 0, bugFixRelease = 25\<rparr>, None)"
  "CastToVersion ''v0.0.5'' = (\<lparr>majorRelease = 0, minorRelease = 0, bugFixRelease = 5\<rparr>, None)"
proof -
  have t: "''v0.0.25'' = versionText ''0'' ''0'' ''25''" "''v0.0.5'' = versionText ''0'' ''0'' ''5''"
    by (simp_all add: versionText_def)
  have d: "digitRun ''0''" "digitRun ''25''" "digitRun ''5''"
    by (simp_all add: digitRun_def isDigit_def)
  have v: "digitsValue ''0'' = 0" "digitsValue ''25'' = 25" "digitsValue ''5'' = 5"
    by (simp_all add: digitsValue_def digitVal_def)
  show "CastToVersion ''v0.0.25'' = (\<lparr>majorRelease = 0, minorRelease = 0, bugFixRelease = 25\<rparr>, None)"
    unfolding t by (simp add: CastToVersion_versionText d v)
  show "CastToVersion ''v0.0.5'' = (\<lparr>majorRelease = 0, minorRelease = 0, bugFixRelease = 5\<rparr>, None)"
    unfolding t by (simp add: CastToVersion_versionText d v)
qed

lemma validate_small:
  "validateVersionFormat ''v0.0.25'' = None" "validateVersionFormat ''v0.0.5'' = None"
  unfolding validateVersionFormat_iff
  by (rule isVersionStringI [of "''0''" "''0''" "''25''"],
      simp_all add: digitRun_def isDigit_def versionText_def,
      rule isVersionStringI [of "''0''" "''0''" "''5''"],
      simp_all add: digitRun_def isDigit_def versionText_def)

lemma validate_rejects:
  "validateVersionFormat '''' \<noteq> None" "validateVersionFormat ''a.b.c'' \<noteq> None"
  "validateVersionFormat ''0.0.0'' \<noteq> None" "validateVersionFormat ''HEAD'' \<noteq> None"
  "validateVersionFormat ''main'' \<noteq> None"
  unfolding validateVersionFormat_iff
  using isVersionString_starts [of "''''"] isVersionString_starts [of "''a.b.c''"]
    isVersionString_starts [of "''0.0.0''"] isVersionString_starts [of "''HEAD''"]
    isVersionString_starts [of "''main''"]
  by auto

text \<open>
  Claim C6. When no string of the list passes the validator (a single string, the empty
  string, or no string at all), the selector fails with \<open>ErrNoVersionTagsFound\<close> and the
  zero Version.
\<close>

theorem getLatestVersionTag_none:
  assumes "\<forall>t\<in>set tagList. validateVersionFormat t \<noteq> None"
  shows "getLatestVersionTag tagList = (zeroVersion, Some ErrNoVersionTagsFound)"
proof -
  from assms have "filter (\<lambda>t. validateVersionFormat t = None) tagList = []"
    by (simp add: filter_empty_conv)
  then show ?thesis by (simp add: getLatestVersionTag_def)
qed

theorem getLatestVersionTag_none_witness:
  "getLatestVersionTag [''''] = (zeroVersion, Some ErrNoVersionTagsFound) \<and>
   getLatestVersionTag [''a.b.c''] = (zeroVersion, Some ErrNoVersionTagsFound) \<and>
   getLatestVersionTag [''0.0.0'', ''main''] = (zeroVersion, Some ErrNoVersionTagsFound)"
  using getLatestVersionTag_none [of "['''']"] getLatestVersionTag_none [of "[''a.b.c'']"]
    getLatestVersionTag_none [of "[''0.0.0'', ''main'']"] validate_rejects
  by simp

text \<open>
  Claim C1 says that the selector returns a Version and no error as soon as one tag passes
  the validator. It does not when the greatest tag has a number beyond the range of \<open>int\<close>:
  the validator only looks at the shape of the digits, the conversion fails, and the selector
  returns that error.
\<close>

theorem getLatestVersionTag_out_of_range:
  "validateVersionFormat ''v9223372036854775808.0.0'' = None \<and>
   getLatestVersionTag [''v9223372036854775808.0.0''] =
     (zeroVersion, Some (NumError ''Atoi'' ''9223372036854775808'' ErrRange))"
  by (simp add: validate_big getLatestVersionTag_def natsortSort_def CastToVersion_big)

text \<open>
  Claim C1, amended. When at least one tag passes the validator and every tag that passes
  it converts without error (its three numbers fit \<open>int\<close>), the selector returns, with no
  error, the Version parsed from a matching tag \<open>t\<close> that no matching tag follows in natural
  order, and that Version is the greatest of the matching tags' Versions in the order by
  major, then minor, then bug fix. For \<^verbatim>\<open>["v0.0.25", "v0.0.5"]\<close> it is (0, 0, 25).
\<close>

theorem getLatestVersionTag_greatest:
  assumes some: "\<exists>t\<in>set tagList. validateVersionFormat t = None"
    and range: "\<forall>t\<in>set tagList. validateVersionFormat t = None \<longrightarrow> snd (CastToVersion t) = None"
  shows "\<exists>t\<in>set tagList. validateVersionFormat t = None \<and>
           getLatestVersionTag tagList = (fst (CastToVersion t), None) \<and>
           (\<forall>u\<in>set tagList. validateVersionFormat u = None \<longrightarrow>
              \<not> Compare t u \<and> versionLeq (fst (CastToVersion u)) (fst (CastToVersion t)))"
proof -
  define vs where "vs = filter (\<lambda>t. validateVersionFormat t = None) tagList"
  define ys where "ys = natsortSort vs"
  define t where "t = ys ! (length ys - 1)"
  have vs_set: "set vs = {u \<in> set tagList. validateVersionFormat u = None}"
    by (auto simp: vs_def)
  from some have vs_ne: "vs \<noteq> []" by (auto simp: vs_def filter_empty_conv)
  have vs_ok: "\<forall>y\<in>set vs. isVersionString y"
    by (simp add: vs_set validateVersionFormat_iff)
  have ys_sorted: "sorted (map versionKey ys)" and ys_set: "set ys = set vs"
    unfolding ys_def by (rule natsortSort_sorted [OF vs_ok])+
  from vs_ne ys_set have ys_ne: "ys \<noteq> []" by auto
  then have t_last: "t = last ys" by (simp add: t_def last_conv_nth)
  with ys_ne have "t \<in> set ys" by simp
  with ys_set vs_set have t_in: "t \<in> set tagList" and t_ok: "validateVersionFormat t = None"
    by auto
  with range have t_range: "snd (CastToVersion t) = None" by blast
  have "getLatestVersionTag tagList =
        (case CastToVersion t of (latestVersion, Some err) \<Rightarrow> (zeroVersion, Some err)
         | (latestVersion, None) \<Rightarrow> (latestVersion, None))"
    using vs_ne by (simp add: getLatestVersionTag_def Let_def vs_def [symmetric] ys_def [symmetric]
        t_def)
  with t_range have res: "getLatestVersionTag tagList = (fst (CastToVersion t), None)"
    by (cases "CastToVersion t") simp
  have greatest: "\<not> Compare t u \<and> versionLeq (fst (CastToVersion u)) (fst (CastToVersion t))"
    if u: "u \<in> set tagList" "validateVersionFormat u = None" for u
  proof -
    from u vs_set ys_set have "u \<in> set ys" by auto
    with ys_sorted have le: "versionKey u \<le> versionKey t"
      unfolding t_last by (rule sorted_map_last)
    from u t_ok have vu: "isVersionString u" and vt: "isVersionString t"
      by (simp_all add: validateVersionFormat_iff)
    from u range have u_range: "snd (CastToVersion u) = None" by blast
    from le have "\<not> Compare t u"
      by (simp add: Compare_versionKey [OF vt vu] not_less)
    moreover from le have "versionLeq (fst (CastToVersion u)) (fst (CastToVersion t))"
      by (simp add: versionLeq_versionKey [OF vu u_range vt t_range])
    ultimately show ?thesis by simp
  qed
  from t_in t_ok res greatest show ?thesis by blast
qed

theorem getLatestVersionTag_greatest_witness:
  "getLatestVersionTag [''v0.0.25'', ''v0.0.5''] =
     (\<lparr>majorRelease = 0, minorRelease = 0, bugFixRelease = 25\<rparr>, None)"
proof -
  have 1: "\<exists>t\<in>set [''v0.0.25'', ''v0.0.5'']. validateVersionFormat t = None"
    by (simp add: validate_small)
  have 2: "\<forall>t\<in>set [''v0.0.25'', ''v0.0.5''].
             validateVersionFormat t = None \<longrightarrow> snd (CastToVersion t) = None"
    by (simp add: CastToVersion_small)
  from getLatestVersionTag_greatest [OF 1 2]
  obtain t where t: "t \<in> set [''v0.0.25'', ''v0.0.5'']"
    and res: "getLatestVersionTag [''v0.0.25'', ''v0.0.5''] = (fst (CastToVersion t), None)"
    and le: "\<forall>u\<in>set [''v0.0.25'', ''v0.0.5'']. validateVersionFormat u = None \<longrightarrow>
               versionLeq (fst (CastToVersion u)) (fst (CastToVersion t))"
    by blast
  from le have le25: "versionLeq (fst (CastToVersion ''v0.0.25'')) (fst (CastToVersion t))"
    by (simp add: validate_small)
  from t have "t = ''v0.0.25'' \<or> t = ''v0.0.5''" by simp
  then show ?thesis
  proof
    assume "t = ''v0.0.25''"
    with res show ?thesis by (simp add: CastToVersion_small)
  next
    assume "t = ''v0.0.5''"
    with le25 have False by (simp add: CastToVersion_small versionLeq_def)
    then show ?thesis ..
  qed
qed

section \<open>The incrementer\<close>

lemma incrementVersion_word:
  "incrementVersion v True False =
     (\<lparr>majorRelease = majorRelease v + 1, minorRelease = 0, bugFixRelease = 0\<rparr>, None)"
  "incrementVersion v False True =
     (\<lparr>majorRelease = majorRelease v, minorRelease = minorRelease v + 1, bugFixRelease = 0\<rparr>, None)"
  "incrementVersion v False False =
     (\<lparr>majorRelease = majorRelease v, minorRelease = minorRelease v,
       bugFixRelease = bugFixRelease v + 1\<rparr>, None)"
  by (simp_all add: incrementVersion_def incrementMajor_def incrementMinor_def incrementBugFix_def)

lemma sint_succ:
  assumes "sint (x :: goInt) < 2 ^ 63 - 1"
  shows "sint (x + 1) = sint x + 1"
proof -
  have lo: "- (2 ^ 63) \<le> sint x" using sint_ge [of x] by simp
  have "sint (x + 1) = signed_take_bit 63 (sint x + 1)"
    by (simp add: sint_word_ariths)
  also have "\<dots> = sint x + 1"
    using assms lo by (intro signed_take_bit_int_eq_self) simp_all
  finally show ?thesis .
qed

lemma sint_maxInt: "sint (9223372036854775807 :: goInt) = 9223372036854775807"
  using sint_word_of_nat [of 9223372036854775807] by simp

lemma sint_maxInt_succ: "sint (9223372036854775807 + 1 :: goInt) = - 9223372036854775808"
proof -
  have "(9223372036854775807 + 1 :: goInt) = - 9223372036854775808" by simp
  moreover have "sint (- 9223372036854775808 :: goInt) = - 9223372036854775808" by simp
  ultimately show ?thesis by simp
qed

lemma CastToVersion_maxInt:
  "CastToVersion ''v9223372036854775807.7.9'' =
     (\<lparr>majorRelease = 9223372036854775807, minorRelease = 7, bugFixRelease = 9\<rparr>, None)"
proof -
  have t: "''v9223372036854775807.7.9'' = versionText ''9223372036854775807'' ''7'' ''9''"
    by (simp add: versionText_def)
  have d: "digitRun ''9223372036854775807''" "digitRun ''7''" "digitRun ''9''"
    by (simp_all add: digitRun_def isDigit_def)
  have v: "digitsValue ''9223372036854775807'' = 9223372036854775807"
    "digitsValue ''7'' = 7" "digitsValue ''9'' = 9"
    by (simp_all add: digitsValue_def digitVal_def)
  show ?thesis unfolding t by (simp add: CastToVersion_versionText d v)
qed

text \<open>
  Claim C2 says that the incremented component is major + 1 (or minor + 1, or bug fix + 1)
  for every Version. The components are \<open>int\<close>s and \<open>++\<close> wraps: the tag
  \<^verbatim>\<open>v9223372036854775807.7.9\<close> parses without error, and incrementing its major component
  gives \<open>-2^63\<close>, not \<open>2^63\<close>.
\<close>

theorem incrementVersion_wraps_at_maxInt:
  "CastToVersion ''v9223372036854775807.7.9'' =
     (\<lparr>majorRelease = 9223372036854775807, minorRelease = 7, bugFixRelease = 9\<rparr>, None) \<and>
   snd (incrementVersion \<lparr>majorRelease = 9223372036854775807, minorRelease = 7, bugFixRelease = 9\<rparr>
          True False) = None \<and>
   sint (majorRelease (fst (incrementVersion
          \<lparr>majorRelease = 9223372036854775807, minorRelease = 7, bugFixRelease = 9\<rparr> True False))) =
     - 9223372036854775808 \<and>
   sint (majorRelease (fst (incrementVersion
          \<lparr>majorRelease = 9223372036854775807, minorRelease = 7, bugFixRelease = 9\<rparr> True False))) \<noteq>
     sint (majorRelease \<lparr>majorRelease = 9223372036854775807, minorRelease = 7, bugFixRelease = 9\<rparr>) + 1"
  by (simp add: CastToVersion_maxInt incrementVersion_word sint_maxInt_succ sint_maxInt)

text \<open>
  Claim C2, amended. For every Version whose component to be incremented is below the
  largest \<open>int\<close> (\<open>2^63 - 1\<close>): with only the major flag set the result has major + 1 and minor
  and bug fix 0; with only the minor flag set it has the same major, minor + 1 and bug
  fix 0; with neither flag set it has the same major and minor and bug fix + 1. No error is
  returned, whatever the other components were.
\<close>

theorem incrementVersion_in_range:
  "(sint (majorRelease v) < 2 ^ 63 - 1 \<longrightarrow>
      snd (incrementVersion v True False) = None \<and>
      sint (majorRelease (fst (incrementVersion v True False))) = sint (majorRelease v) + 1 \<and>
      minorRelease (fst (incrementVersion v True False)) = 0 \<and>
      bugFixRelease (fst (incrementVersion v True False)) = 0) \<and>
   (sint (minorRelease v) < 2 ^ 63 - 1 \<longrightarrow>
      snd (incrementVersion v False True) = None \<and>
      majorRelease (fst (incrementVersion v False True)) = majorRelease v \<and>
      sint (minorRelease (fst (incrementVersion v False True))) = sint (minorRelease v) + 1 \<and>
      bugFixRelease (fst (incrementVersion v False True)) = 0) \<and>
   (sint (bugFixRelease v) < 2 ^ 63 - 1 \<longrightarrow>
      snd (incrementVersion v False False) = None \<and>
      majorRelease (fst (incrementVersion v False False)) = majorRelease v \<and>
      minorRelease (fst (incrementVersion v False False)) = minorRelease v \<and>
      sint (bugFixRelease (fst (incrementVersion v False False))) = sint (bugFixRelease v) + 1)"
  by (simp add: incrementVersion_word sint_succ)

theorem incrementVersion_in_range_witness:
  "incrementVersion \<lparr>majorRelease = 5, minorRelease = 5, bugFixRelease = 5\<rparr> True False =
     (\<lparr>majorRelease = 6, minorRelease = 0, bugFixRelease = 0\<rparr>, None) \<and>
   incrementVersion \<lparr>majorRelease = 5, minorRelease = 5, bugFixRelease = 5\<rparr> False True =
     (\<lparr>majorRelease = 5, minorRelease = 6, bugFixRelease = 0\<rparr>, None) \<and>
   incrementVersion \<lparr>majorRelease = 5, minorRelease = 5, bugFixRelease = 5\<rparr> False False =
     (\<lparr>majorRelease = 5, minorRelease = 5, bugFixRelease = 6\<rparr>, None) \<and>
   sint (majorRelease (fst (incrementVersion
      \<lparr>majorRelease = 5, minorRelease = 5, bugFixRelease = 5\<rparr> True False))) = 6"
proof -
  have five: "sint (5 :: goInt) = 5" using sint_word_of_nat [of 5] by simp
  from incrementVersion_in_range [of "\<lparr>majorRelease = 5, minorRelease = 5, bugFixRelease = 5\<rparr>"]
  have "sint (majorRelease (fst (incrementVersion
      \<lparr>majorRelease = 5, minorRelease = 5, bugFixRelease = 5\<rparr> True False))) = 6"
    by (simp add: five)
  then show ?thesis by (simp add: incrementVersion_word)
qed

text \<open>
  Claim C5. With both flags set the incrementer fails with \<open>ErrCannotIncrementMajAndMin\<close>
  and the Version it returns is the one it was given.
\<close>

theorem incrementVersion_both_flags:
  "incrementVersion v True True = (v, Some ErrCannotIncrementMajAndMin)"
  by (simp add: incrementVersion_def)

section \<open>Orchestration, fetching and publishing\<close>




lemma String_zeroVersion: "String zeroVersion = ''v0.0.0''"
  by (simp add: String_def zeroVersion_def formatInt_def decimal.simps digitChar_eq)

lemma BumpVersion_fetch_error:
  assumes "getRemoteGitTags repo = Inl e"
  shows "BumpVersion repo major minor =
           (Some (Wrap e ''Unable to get remote git tags from the repo''), repo)"
  using assms by (simp add: BumpVersion_def)

lemma BumpVersion_bootstrap:
  assumes "getRemoteGitTags repo = Inr tagList"
    and "snd (getLatestVersionTag tagList) = Some ErrNoVersionTagsFound"
  shows "BumpVersion repo major minor =
           tag (Println ''no version tags found, creating new tag version: v0.0.0'' repo) zeroVersion"
  using assms by (cases "getLatestVersionTag tagList") (simp add: BumpVersion_def)

lemma BumpVersion_selector_error:
  assumes "getRemoteGitTags repo = Inr tagList"
    and "snd (getLatestVersionTag tagList) = Some e" and "e \<noteq> ErrNoVersionTagsFound"
  shows "BumpVersion repo major minor =
           (Some (Wrap e ''unable to get latest version tag from the tag list''), repo)"
  using assms by (cases "getLatestVersionTag tagList") (simp add: BumpVersion_def)

lemma exampleRepo_tags:
  "getRemoteGitTags (exampleRepo []) = Inl ErrNoTagsFound"
  "getRemoteGitTags (exampleRepo [''HEAD'', ''refs/heads/main'']) = Inr [''HEAD'', ''main'']"
  "getRemoteGitTags (exampleRepo [''refs/tags/v9223372036854775808.0.0'']) =
     Inr [''v9223372036854775808.0.0'']"
  by (simp_all add: getRemoteGitTags_def exampleRepo_def TrimPrefix_def)

lemma getLatest_examples:
  "getLatestVersionTag [''HEAD'', ''main''] = (zeroVersion, Some ErrNoVersionTagsFound)"
  "getLatestVersionTag [''v9223372036854775808.0.0''] =
     (zeroVersion, Some (NumError ''Atoi'' ''9223372036854775808'' ErrRange))"
  by (simp_all add: getLatestVersionTag_def validate_rejects validate_big natsortSort_def
      CastToVersion_big)

lemma tag_example:
  "tag (Println line (exampleRepo refs)) zeroVersion =
     (None, (exampleRepo refs)\<lparr>localTags := [(''v0.0.0'', ''c0ffee'')], pushedTags := [''v0.0.0''],
        stdout := [line, ''new tag:  v0.0.0'',
          ''new tag has been created locally (view with 'git tag -l | tail'): v0.0.0'']\<rparr>)"
  by (simp add: tag_def Println_def exampleRepo_def CreateTag_def Push_def String_zeroVersion)



text \<open>
  Claim C8. In \<open>BumpVersion\<close>: an error from fetching the remote's references is returned
  wrapped; when the selector fails with exactly \<open>ErrNoVersionTagsFound\<close> the incrementer is
  not run (the flags play no part) and the result is that of the publisher called with the
  zero Version, whose canonical string is \<^verbatim>\<open>v0.0.0\<close>; any other selector error is returned
  wrapped.
\<close>

theorem BumpVersion_selector_outcomes:
  "(getRemoteGitTags repo = Inl e \<longrightarrow>
      BumpVersion repo major minor =
        (Some (Wrap e ''Unable to get remote git tags from the repo''), repo)) \<and>
   (getRemoteGitTags repo = Inr tagList \<and>
    snd (getLatestVersionTag tagList) = Some ErrNoVersionTagsFound \<longrightarrow>
      BumpVersion repo major minor =
        tag (Println ''no version tags found, creating new tag version: v0.0.0'' repo) zeroVersion \<and>
      String zeroVersion = ''v0.0.0'') \<and>
   (getRemoteGitTags repo = Inr tagList \<and>
    snd (getLatestVersionTag tagList) = Some e \<and> e \<noteq> ErrNoVersionTagsFound \<longrightarrow>
      BumpVersion repo major minor =
        (Some (Wrap e ''unable to get latest version tag from the tag list''), repo))"
  by (simp add: BumpVersion_fetch_error BumpVersion_bootstrap BumpVersion_selector_error
      String_zeroVersion)


theorem BumpVersion_selector_outcomes_witness:
  "BumpVersion (exampleRepo []) False False =
     (Some (Wrap ErrNoTagsFound ''Unable to get remote git tags from the repo''), exampleRepo []) \<and>
   fst (BumpVersion (exampleRepo [''HEAD'', ''refs/heads/main'']) True True) = None \<and>
   localTags (snd (BumpVersion (exampleRepo [''HEAD'', ''refs/heads/main'']) True True)) =
     [(''v0.0.0'', ''c0ffee'')] \<and>
   BumpVersion (exampleRepo [''refs/tags/v9223372036854775808.0.0'']) False False =
     (Some (Wrap (NumError ''Atoi'' ''9223372036854775808'' ErrRange)
        ''unable to get latest version tag from the tag list''),
      exampleRepo [''refs/tags/v9223372036854775808.0.0''])"
  using
    BumpVersion_selector_outcomes [of "exampleRepo []" ErrNoTagsFound False False "[]"]
    BumpVersion_selector_outcomes [of "exampleRepo [''HEAD'', ''refs/heads/main'']" ErrNoTagsFound
      True True "[''HEAD'', ''main'']"]
    BumpVersion_selector_outcomes [of "exampleRepo [''refs/tags/v9223372036854775808.0.0'']"
      "NumError ''Atoi'' ''9223372036854775808'' ErrRange" False False
      "[''v9223372036854775808.0.0'']"]
  by (simp add: exampleRepo_tags getLatest_examples tag_example)





end
